theory Spec2Isabelle
  imports Main "HOL-Library.AList" "HOL-Library.Multiset"
begin

section \<open>Content versioning and chunking pipeline\<close>

text \<open>
  A shallow embedding of \<^verbatim>\<open>app/services/vectorizer.py\<close> (class \<^verbatim>\<open>Vectorizer\<close>) and of
  \<^verbatim>\<open>app/services/document_processor.py\<close> (\<^verbatim>\<open>DocumentProcessor.update_document\<close>).

  Python strings are sequences of code points; a \<^typ>\<open>char\<close> stands for one code point
  below 256. Python integers are unbounded, hence \<^typ>\<open>int\<close>. A function whose loop
  may run forever returns an \<^typ>\<open>'a option\<close>, with \<^term>\<open>None\<close> for "does not return".
\<close>

subsection \<open>Python string primitives\<close>

text \<open>\<^verbatim>\<open>str.isspace\<close> and the regex class \<^verbatim>\<open>\s\<close> on code points below 256:
  TAB, LF, VT, FF, CR, the separators 0x1C..0x1F, SPACE, NEL (0x85) and NBSP (0xA0).\<close>

definition isspace :: "char \<Rightarrow> bool" where
  "isspace c =
     (let n = (of_char c :: nat)
      in (9 \<le> n \<and> n \<le> 13) \<or> (28 \<le> n \<and> n \<le> 32) \<or> n = 133 \<or> n = 160)"

text \<open>\<^verbatim>\<open>re.sub(r'\s+', ' ', text)\<close>: every maximal run of whitespace becomes one space.\<close>

function re_sub_ws :: "string \<Rightarrow> string" where
  "re_sub_ws [] = []"
| "re_sub_ws (c # cs) =
     (if isspace c then CHR '' '' # re_sub_ws (dropWhile isspace cs) else c # re_sub_ws cs)"
  by pat_completeness auto
termination
  by (relation "measure length") (auto simp: less_Suc_eq_le length_dropWhile_le)

text \<open>\<^verbatim>\<open>str.strip()\<close> without argument.\<close>

definition strip :: "string \<Rightarrow> string" where
  "strip s = rev (dropWhile isspace (rev (dropWhile isspace s)))"

text \<open>Slicing \<^verbatim>\<open>xs[i:j]\<close>: a negative bound counts from the end, and both bounds are
  clamped to the sequence.\<close>

definition slice_index :: "nat \<Rightarrow> int \<Rightarrow> nat" where
  "slice_index n i = (if i < 0 then nat (max (i + int n) 0) else min (nat i) n)"

definition slice :: "'a list \<Rightarrow> int \<Rightarrow> int \<Rightarrow> 'a list" where
  "slice xs i j =
     (let a = slice_index (length xs) i; b = slice_index (length xs) j
      in take (b - a) (drop a xs))"

text \<open>\<^verbatim>\<open>s.rfind(sub)\<close>: the highest index at which \<^verbatim>\<open>sub\<close> occurs in \<^verbatim>\<open>s\<close>, or -1.\<close>

definition rfind :: "string \<Rightarrow> string \<Rightarrow> int" where
  "rfind s sub =
     (case filter (\<lambda>i. take (length sub) (drop i s) = sub)
             (rev [0 ..< Suc (length s) - length sub]) of
        [] \<Rightarrow> - 1
      | i # _ \<Rightarrow> int i)"

text \<open>\<^verbatim>\<open>str(i)\<close> for a non-negative integer, and \<^verbatim>\<open>sep.join(xs)\<close>.\<close>

fun str_nat :: "nat \<Rightarrow> string" where
  "str_nat n =
     (if n < 10 then [''0123456789'' ! n]
      else str_nat (n div 10) @ [''0123456789'' ! (n mod 10)])"

declare str_nat.simps [simp del]

fun join :: "string \<Rightarrow> string list \<Rightarrow> string" where
  "join sep [] = []"
| "join sep [x] = x"
| "join sep (x # y # ys) = x @ sep @ join sep (y # ys)"

text \<open>\<^verbatim>\<open>str(xs)\<close> for a list, given the \<^verbatim>\<open>repr\<close> of its elements (the elements of an
  embedding are floats, whose printing is left to the parameter).\<close>

definition str_list :: "('f \<Rightarrow> string) \<Rightarrow> 'f list \<Rightarrow> string" where
  "str_list repr xs = ''['' @ join '', '' (map repr xs) @ '']''"

subsection \<open>The chunker\<close>

datatype error = KeyError | TypeError | WriteError | DataError | IntegrityError

record vectorizer =
  chunk_size :: int
  chunk_overlap :: int

text \<open>\<^verbatim>\<open>Vectorizer.__init__\<close> stores its two arguments and has no other statement.\<close>

definition Vectorizer_init :: "int \<Rightarrow> int \<Rightarrow> error + vectorizer" where
  "Vectorizer_init cs ov = Inr \<lparr>chunk_size = cs, chunk_overlap = ov\<rparr>"

definition default_vectorizer :: vectorizer where
  "default_vectorizer = \<lparr>chunk_size = 1000, chunk_overlap = 200\<rparr>"

text \<open>The line under the comment \<^verbatim>\<open># Clean text\<close>.\<close>

definition clean_text :: "string \<Rightarrow> string" where
  "clean_text s = strip (re_sub_ws s)"

text \<open>One pass through the body of the \<^verbatim>\<open>while\<close> loop of \<^verbatim>\<open>chunk_text\<close>, up to the
  \<^verbatim>\<open>chunks.append(chunk)\<close>: the chunk that is appended and the value of \<^verbatim>\<open>end\<close>.\<close>

definition chunk_step :: "int \<Rightarrow> string \<Rightarrow> int \<Rightarrow> string \<times> int" where
  "chunk_step csize s start =
     (let end0 = start + csize;
          end1 = (if end0 > int (length s) then int (length s) else end0);
          chunk = slice s start end1
      in if end1 < int (length s) then
           (let para_break = rfind chunk [CHR 0x0A, CHR 0x0A]
            in if para_break \<noteq> - 1 \<and> para_break > csize div 2
               then (slice chunk 0 para_break, start + para_break)
               else (let sentence_break = rfind chunk ''. ''
                     in if sentence_break \<noteq> - 1 \<and> sentence_break > csize div 2
                        then (slice chunk 0 (sentence_break + 1), start + sentence_break + 1)
                        else (chunk, end1)))
         else (chunk, end1))"

text \<open>The \<^verbatim>\<open>while start < len(text)\<close> loop; \<^term>\<open>None\<close> when it does not end.\<close>

partial_function (option) chunk_loop ::
  "int \<Rightarrow> int \<Rightarrow> string \<Rightarrow> int \<Rightarrow> string list \<Rightarrow> string list option" where
  "chunk_loop csize overlap s start chunks =
     (if start < int (length s)
      then chunk_loop csize overlap s
             (snd (chunk_step csize s start) - overlap)
             (chunks @ [fst (chunk_step csize s start)])
      else Some chunks)"

declare chunk_loop.simps [code]

definition chunk_text :: "vectorizer \<Rightarrow> string \<Rightarrow> string list option" where
  "chunk_text self s0 =
     (if s0 = [] then Some []
      else (let s = clean_text s0
            in if int (length s) \<le> chunk_size self then Some [s]
               else chunk_loop (chunk_size self) (chunk_overlap self) s 0 []))"

subsection \<open>The document store\<close>

text \<open>A MongoDB document is an ordered dictionary from field names to values; the
  collection is the list of its documents in natural order. Floating-point values are
  left out of the value type.\<close>

datatype bson =
    BNull
  | BBool bool
  | BInt int
  | BStr string
  | BTime nat
  | BArr "bson list"
  | BDoc "(string \<times> bson) list"

type_synonym document = "(string \<times> bson) list"
type_synonym collection = "document list"


text \<open>\<^verbatim>\<open>documents_collection.find_one({"document_id": document_id})\<close>.\<close>

definition find_one :: "collection \<Rightarrow> string \<Rightarrow> document option" where
  "find_one coll doc_id = List.find (\<lambda>d. map_of d ''document_id'' = Some (BStr doc_id)) coll"

text \<open>\<^verbatim>\<open>d[k]\<close> on a dictionary.\<close>

definition getitem :: "document \<Rightarrow> string \<Rightarrow> error + bson" where
  "getitem d k = (case map_of d k of None \<Rightarrow> Inl KeyError | Some v \<Rightarrow> Inr v)"

text \<open>\<^verbatim>\<open>{**a, **b}\<close>: the items of \<^verbatim>\<open>a\<close>, each key of \<^verbatim>\<open>b\<close> then assigned in turn
  (an existing key keeps its place, a new key goes to the end).\<close>

definition dict_merge :: "(string \<times> bson) list \<Rightarrow> (string \<times> bson) list \<Rightarrow> (string \<times> bson) list" where
  "dict_merge a b = fold (\<lambda>kv d. AList.update (fst kv) (snd kv) d) b a"

fun update_first :: "('a \<Rightarrow> bool) \<Rightarrow> ('a \<Rightarrow> 'a) \<Rightarrow> 'a list \<Rightarrow> 'a list" where
  "update_first p f [] = []"
| "update_first p f (x # xs) = (if p x then f x # xs else x # update_first p f xs)"

definition dollar_prefixed :: "string \<Rightarrow> bool" where
  "dollar_prefixed k = (case k of [] \<Rightarrow> False | c # _ \<Rightarrow> c = CHR ''$'')"

record update_result =
  matched_count :: nat
  modified_count :: nat

text \<open>\<^verbatim>\<open>documents_collection.update_one({"document_id": document_id}, {"$set": fields})\<close>.
  The \<^verbatim>\<open>$set\<close> operator assigns each listed field of the first matching document, and
  \<^verbatim>\<open>modified_count\<close> is 1 only when the document changed. What the server does with a
  field name that starts with a dollar sign depends on its version, so it is the
  parameter \<open>dollar_ok\<close>: either the name is stored literally as a field, or the
  write is refused with a write error.\<close>

definition update_one_set ::
  "bool \<Rightarrow> collection \<Rightarrow> string \<Rightarrow> (string \<times> bson) list \<Rightarrow> error + (update_result \<times> collection)" where
  "update_one_set dollar_ok coll doc_id set_fields =
     (case find_one coll doc_id of
        None \<Rightarrow> Inr (\<lparr>matched_count = 0, modified_count = 0\<rparr>, coll)
      | Some d \<Rightarrow>
          if \<not> dollar_ok \<and> list_ex dollar_prefixed (map fst set_fields) then Inl WriteError
          else Inr (\<lparr>matched_count = 1,
                      modified_count = (if dict_merge d set_fields = d then 0 else 1)\<rparr>,
                    update_first (\<lambda>d. map_of d ''document_id'' = Some (BStr doc_id))
                      (\<lambda>d. dict_merge d set_fields) coll))"

text \<open>\<^verbatim>\<open>DocumentProcessor.update_document\<close>. The two readings of the clock are the
  parameters \<open>now1\<close> and \<open>now2\<close>; the optional \<^verbatim>\<open>metadata\<close> argument is an option.\<close>

definition update_document ::
  "bool \<Rightarrow> collection \<Rightarrow> string \<Rightarrow> string \<Rightarrow> (string \<times> bson) list option \<Rightarrow> nat \<Rightarrow> nat
     \<Rightarrow> error + (bool \<times> collection)" where
  "update_document dollar_ok coll doc_id content metadata now1 now2 =
     (case find_one coll doc_id of
        None \<Rightarrow> Inr (False, coll)
      | Some current_doc \<Rightarrow>
         (case getitem current_doc ''content'' of
            Inl e \<Rightarrow> Inl e
          | Inr cur_content \<Rightarrow>
             (case getitem current_doc ''metadata'' of
                Inl e \<Rightarrow> Inl e
              | Inr cur_metadata \<Rightarrow>
                 (let version_entry = BDoc [(''content'', cur_content),
                                            (''metadata'', cur_metadata),
                                            (''timestamp'', BTime now1)];
                      update_data = [(''content'', BStr content),
                                     (''updated_at'', BTime now2),
                                     (''$push'', BDoc [(''version_history'', version_entry)])]
                  in case (case metadata of
                             None \<Rightarrow> Inr update_data
                           | Some [] \<Rightarrow> Inr update_data
                           | Some (kv # kvs) \<Rightarrow>
                               (case cur_metadata of
                                  BDoc m \<Rightarrow>
                                    Inr (update_data @ [(''metadata'', BDoc (dict_merge m (kv # kvs)))])
                                | _ \<Rightarrow> Inl TypeError)) of
                       Inl e \<Rightarrow> Inl e
                     | Inr update_data' \<Rightarrow>
                        (case update_one_set dollar_ok coll doc_id update_data' of
                           Inl e \<Rightarrow> Inl e
                         | Inr (result, coll') \<Rightarrow> Inr (modified_count result > 0, coll'))))))"

subsection \<open>The chunk table\<close>

text \<open>A row of \<^verbatim>\<open>document_embeddings\<close>; the columns \<^verbatim>\<open>id\<close> and \<^verbatim>\<open>created_at\<close> are
  filled by the database and read by none of the functions below. The table is the list
  of its rows in insertion order; \<open>document_id\<close> holds a UUID in its normal spelling.\<close>

record DocumentEmbedding =
  document_id :: string
  chunk_id :: string
  chunk_text_col :: string
  embedding :: "string option"






text \<open>\<^verbatim>\<open>update_embedding\<close>: the first row with the given \<^verbatim>\<open>chunk_id\<close> gets the string
  form of the vector.\<close>

definition update_embedding ::
  "('f \<Rightarrow> string) \<Rightarrow> string \<Rightarrow> 'f list \<Rightarrow> DocumentEmbedding list \<Rightarrow> bool \<times> DocumentEmbedding list" where
  "update_embedding repr cid vec db =
     (case List.find (\<lambda>r. chunk_id r = cid) db of
        None \<Rightarrow> (False, db)
      | Some chunk \<Rightarrow>
          (True, update_first (\<lambda>r. chunk_id r = cid)
                   (\<lambda>r. r\<lparr>embedding := Some (str_list repr vec)\<rparr>) db))"

subsection \<open>Example data\<close>

text \<open>A stored document as \<^verbatim>\<open>process_document\<close> creates it (empty version history),
  with the content and the metadata of the update example of the specification.\<close>

definition example_doc :: document where
  "example_doc =
     [(''document_id'', BStr ''d1''),
      (''content'', BStr ''C1''),
      (''metadata'', BDoc [(''k'', BStr ''old''), (''j'', BInt 1)]),
      (''version_history'', BArr []),
      (''updated_at'', BTime 0)]"





section \<open>Properties of the chunker\<close>

subsection \<open>Searching and slicing\<close>

lemma rfind_found:
  assumes "rfind s sub \<noteq> - 1"
  shows "0 \<le> rfind s sub \<and> nat (rfind s sub) + length sub \<le> length s
         \<and> take (length sub) (drop (nat (rfind s sub)) s) = sub"
proof -
  let ?cands = "filter (\<lambda>i. take (length sub) (drop i s) = sub)
                  (rev [0 ..< Suc (length s) - length sub])"
  from assms obtain i rest where c: "?cands = i # rest" and r: "rfind s sub = int i"
    by (auto simp: rfind_def split: list.splits)
  have "i \<in> set ?cands" using c by simp
  then have "i < Suc (length s) - length sub" and "take (length sub) (drop i s) = sub"
    by auto
  then show ?thesis using r by auto
qed

lemma slice_end_bound:
  "slice xs i j \<noteq> [] \<Longrightarrow> i + int (length (slice xs i j)) \<le> int (length xs)"
  by (auto simp: slice_def slice_index_def Let_def split: if_splits)

lemma set_slice_subset: "set (slice xs i j) \<subseteq> set xs"
  unfolding slice_def Let_def
  by (meson set_take_subset set_drop_subset subset_trans)

subsection \<open>The loop never ends once entered with a positive overlap\<close>

lemma chunk_step_end_le: "snd (chunk_step cs s start) \<le> int (length s)"
proof -
  let ?end1 = "if start + cs > int (length s) then int (length s) else start + cs"
  let ?chunk = "slice s start ?end1"
  have cut: "start + k + 1 \<le> int (length s)"
    if "k = rfind ?chunk sub" "k \<noteq> - 1" "sub \<noteq> []" for k sub
  proof -
    from rfind_found[of ?chunk sub] that
    have k: "0 \<le> k" "nat k + length sub \<le> length ?chunk" by auto
    then have ne: "?chunk \<noteq> []" using that(3) by (cases sub) auto
    from slice_end_bound[OF ne] k that(3) show ?thesis by (cases sub) auto
  qed
  have cut1: "start + rfind ?chunk [CHR 0x0A, CHR 0x0A] \<le> int (length s)"
    if "rfind ?chunk [CHR 0x0A, CHR 0x0A] \<noteq> - 1"
    using cut[of "rfind ?chunk [CHR 0x0A, CHR 0x0A]" "[CHR 0x0A, CHR 0x0A]"] that by simp
  have cut2: "start + rfind ?chunk ''. '' + 1 \<le> int (length s)"
    if "rfind ?chunk ''. '' \<noteq> - 1"
    using cut[of "rfind ?chunk ''. ''" "''. ''"] that by simp
  show ?thesis
    using cut1 cut2 by (auto simp: chunk_step_def Let_def)
qed

lemma chunk_loop_returns_only_past_end:
  assumes "chunk_loop cs ov s start chunks = Some y"
  shows "0 < ov \<longrightarrow> \<not> start < int (length s)"
  using assms
proof (induction cs ov s start chunks y rule: chunk_loop.raw_induct[rotated 1, consumes 1])
  case (1 f cs ov s start chunks y)
  show ?case
  proof (intro impI notI)
    assume pos: "0 < ov" and lt: "start < int (length s)"
    with 1(2) have "f cs ov s (snd (chunk_step cs s start) - ov)
                      (chunks @ [fst (chunk_step cs s start)]) = Some y" by simp
    from 1(1)[OF this] chunk_step_end_le[of cs s start] pos
    show False by simp
  qed
qed

lemma chunk_loop_diverges:
  "0 < ov \<Longrightarrow> start < int (length s) \<Longrightarrow> chunk_loop cs ov s start chunks = None"
  using chunk_loop_returns_only_past_end[of cs ov s start chunks]
  by (cases "chunk_loop cs ov s start chunks") auto

lemma chunk_text_diverges:
  assumes "0 < chunk_overlap self" and "chunk_overlap self < chunk_size self"
    and "chunk_size self < int (length (clean_text s0))"
  shows "chunk_text self s0 = None"
proof -
  from assms have "clean_text s0 \<noteq> []" and "0 < int (length (clean_text s0))" by auto
  moreover from this have "s0 \<noteq> []"
    by (auto simp: clean_text_def strip_def)
  ultimately show ?thesis
    using assms by (simp add: chunk_text_def Let_def chunk_loop_diverges)
qed

text \<open>
  C1. The claim: for every text and every configuration with
  \<open>chunk_overlap < chunk_size\<close>, \<open>chunk_text\<close> terminates and returns its chunks.
  The code does not: with \<open>chunk_size = 4\<close>, \<open>chunk_overlap = 1\<close> and the text
  \<open>abcdef\<close> the loop emits \<open>abcd\<close>, then \<open>def\<close>, which ends at the end of the text,
  sets \<open>start\<close> to \<open>6 - 1 = 5\<close>, and from then on emits \<open>f\<close> and sets \<open>start\<close> to 5
  again, for ever: \<open>chunk_text\<close> returns nothing.
\<close>

theorem chunk_text_does_not_return:
  "chunk_text \<lparr>chunk_size = 4, chunk_overlap = 1\<rparr> ''abcdef'' = None"
  by (rule chunk_text_diverges) (simp_all add: clean_text_def strip_def isspace_def)

subsection \<open>Short texts\<close>

text \<open>The empty text gives no chunk; every other text whose cleaned form is at most
  \<open>chunk_size\<close> long gives exactly one chunk, the cleaned text.\<close>

lemma chunk_text_short:
  "chunk_text self [] = Some [] \<and>
   (s0 \<noteq> [] \<and> int (length (clean_text s0)) \<le> chunk_size self
      \<longrightarrow> chunk_text self s0 = Some [clean_text s0])"
  by (simp add: chunk_text_def Let_def)

text \<open>
  C4. The claim: a text whose cleaned form is at most \<open>chunk_size\<close> long gives one
  chunk, the cleaned text, and a text that is empty or of whitespace only gives no
  chunk. The code gives no chunk for the empty text, but the test \<open>if not text\<close> comes
  before the cleaning: a text of two spaces passes it, is cleaned to the empty string,
  and \<open>chunk_text\<close> returns one chunk, the empty string, where the claim says none.
\<close>

theorem chunk_text_whitespace_only_gives_empty_chunk:
  "list_all isspace ''  '' \<and> clean_text ''  '' = [] \<and>
   chunk_text default_vectorizer [] = Some [] \<and>
   chunk_text default_vectorizer ''  '' = Some [[]] \<and>
   chunk_text default_vectorizer ''  '' \<noteq> Some []"
  by (simp add: chunk_text_def clean_text_def strip_def isspace_def default_vectorizer_def)

subsection \<open>Construction\<close>

text \<open>
  C7, as the code has it. Constructing a \<open>Vectorizer\<close> never fails: whatever
  \<open>chunk_size\<close> and \<open>chunk_overlap\<close> are, also with \<open>chunk_overlap \<ge> chunk_size\<close>,
  both values are stored as given, neither rejected nor clamped.
\<close>

theorem Vectorizer_init_accepts_all:
  "\<exists>self. Vectorizer_init cs ov = Inr self \<and> chunk_size self = cs \<and> chunk_overlap self = ov"
  by (simp add: Vectorizer_init_def)

text \<open>
  C7, as the claim states it, fails: with \<open>chunk_size = 5\<close> and \<open>chunk_overlap = 10\<close>
  the constructor returns a \<open>Vectorizer\<close> holding exactly these values.
\<close>

theorem Vectorizer_init_invalid_counterexample:
  "(10::int) \<ge> 5 \<and> Vectorizer_init 5 10 = Inr \<lparr>chunk_size = 5, chunk_overlap = 10\<rparr>"
  by (simp add: Vectorizer_init_def)


subsection \<open>The cleaned text holds no line break\<close>

lemma re_sub_ws_spaces:
  "c \<in> set (re_sub_ws s) \<Longrightarrow> isspace c \<Longrightarrow> c = CHR '' ''"
proof (induction s rule: re_sub_ws.induct)
  case 1
  then show ?case by simp
next
  case (2 d ds)
  then show ?case by (auto split: if_splits)
qed

lemma set_strip_subset: "set (strip s) \<subseteq> set s"
proof
  fix c assume "c \<in> set (strip s)"
  then have "c \<in> set (dropWhile isspace (rev (dropWhile isspace s)))"
    by (simp add: strip_def)
  then have "c \<in> set (rev (dropWhile isspace s))" by (rule set_dropWhileD)
  then have "c \<in> set (dropWhile isspace s)" by simp
  then show "c \<in> set s" by (rule set_dropWhileD)
qed

lemma clean_text_no_newline: "CHR 0x0A \<notin> set (clean_text s)"
proof
  assume "CHR 0x0A \<in> set (clean_text s)"
  then have "CHR 0x0A \<in> set (re_sub_ws s)"
    using set_strip_subset[of "re_sub_ws s"] by (auto simp: clean_text_def)
  moreover have "isspace (CHR 0x0A)" by (simp add: isspace_def)
  ultimately have "CHR 0x0A = CHR '' ''" by (rule re_sub_ws_spaces)
  then show False by simp
qed

lemma rfind_first_char:
  assumes "rfind s (c # cs) \<noteq> - 1"
  shows "c \<in> set s"
proof -
  from rfind_found[OF assms]
  have "take (length (c # cs)) (drop (nat (rfind s (c # cs))) s) = c # cs" by simp
  then have "c \<in> set (take (length (c # cs)) (drop (nat (rfind s (c # cs))) s))" by simp
  then show ?thesis
    by (meson in_set_takeD in_set_dropD)
qed

lemma rfind_para_clean:
  "rfind (slice (clean_text s0) i j) [CHR 0x0A, CHR 0x0A] = - 1"
proof (rule ccontr)
  assume "rfind (slice (clean_text s0) i j) [CHR 0x0A, CHR 0x0A] \<noteq> - 1"
  then have "CHR 0x0A \<in> set (slice (clean_text s0) i j)" by (rule rfind_first_char)
  then show False
    using set_slice_subset[of "clean_text s0" i j] clean_text_no_newline[of s0] by auto
qed

lemma chunk_step_clean_cases:
  assumes s: "s = clean_text s0"
    and end1: "end1 = (if start + csize > int (length s) then int (length s) else start + csize)"
    and chunk: "chunk = slice s start end1"
    and k: "k = rfind chunk ''. ''"
  shows "chunk_step csize s start = (chunk, end1) \<or>
          (csize div 2 < k \<and> take 2 (drop (nat k) chunk) = ''. '' \<and>
           chunk_step csize s start = (slice chunk 0 (k + 1), start + k + 1))"
proof -
  have para: "rfind chunk [CHR 0x0A, CHR 0x0A] = - 1"
    unfolding chunk s by (rule rfind_para_clean)
  have found: "take 2 (drop (nat k) chunk) = ''. ''" if "k \<noteq> - 1"
    using rfind_found[of chunk "''. ''"] that unfolding k
    by (simp add: numeral_2_eq_2)
  show ?thesis
  proof (cases "end1 < int (length s) \<and> k \<noteq> - 1 \<and> csize div 2 < k")
    case True
    then have "chunk_step csize s start = (slice chunk 0 (k + 1), start + k + 1)"
      using para unfolding chunk_step_def Let_def chunk end1 k
      by simp
    with True found show ?thesis by simp
  next
    case False
    then have "chunk_step csize s start = (chunk, end1)"
      using para unfolding chunk_step_def Let_def chunk end1 k
      by auto
    then show ?thesis by simp
  qed
qed

text \<open>
  C6. On the cleaned text the search for a paragraph break (the last double line feed
  in the candidate chunk) finds nothing, whatever the bounds of the candidate chunk. So
  a pass of the loop either keeps the candidate chunk, which ends \<open>chunk_size\<close>
  characters after \<open>start\<close> or at the end of the text, or cuts just after the last
  period that is followed by a space.
\<close>

theorem paragraph_break_never_matches:
  "rfind (slice (clean_text s0) start e) [CHR 0x0A, CHR 0x0A] = - 1 \<and>
   (let s = clean_text s0;
        end1 = (if start + csize > int (length s) then int (length s) else start + csize);
        chunk = slice s start end1;
        k = rfind chunk ''. ''
    in chunk_step csize s start = (chunk, end1) \<or>
       (csize div 2 < k \<and> take 2 (drop (nat k) chunk) = ''. '' \<and>
        chunk_step csize s start = (slice chunk 0 (k + 1), start + k + 1)))"
  unfolding Let_def
  by (intro conjI rfind_para_clean chunk_step_clean_cases[OF refl refl refl refl])

subsection \<open>Overlap of consecutive chunks\<close>

lemma chunk_text_positive_overlap_length:
  assumes "0 < chunk_overlap self" and "chunk_overlap self < chunk_size self"
    and "chunk_text self s0 = Some chunks"
  shows "length chunks \<le> 1"
proof (cases "chunk_size self < int (length (clean_text s0))")
  case True
  with assms chunk_text_diverges[of self s0] show ?thesis by simp
next
  case False
  with assms(3) show ?thesis
    by (auto simp: chunk_text_def Let_def split: if_splits)
qed

text \<open>
  C5. The claim: for every configuration with \<open>chunk_overlap < chunk_size\<close>, each chunk
  of the returned sequence begins with the trailing \<open>chunk_overlap\<close> characters of the
  chunk before it. The loop does set \<open>start\<close> to \<open>end - chunk_overlap\<close> after each chunk,
  but with a positive overlap it never returns a sequence of two chunks: on the example
  of the specification, \<open>chunk_size = 20\<close> and \<open>chunk_overlap = 5\<close> on a text of 32
  characters, it emits the chunks of 20 and of 17 characters, the second of which ends
  at the end of the text, and then the last 5 characters for ever. \<open>chunk_text\<close>
  returns nothing where the claim describes two chunks that share 5 characters.
\<close>

theorem chunk_text_overlap_example_does_not_return:
  "chunk_overlap \<lparr>chunk_size = 20, chunk_overlap = 5\<rparr> < chunk_size \<lparr>chunk_size = 20, chunk_overlap = 5\<rparr> \<and>
   length (clean_text ''AAAAAAAAAA BBBBBBBBBB CCCCCCCCCC'') = 32 \<and>
   chunk_text \<lparr>chunk_size = 20, chunk_overlap = 5\<rparr> ''AAAAAAAAAA BBBBBBBBBB CCCCCCCCCC'' = None"
proof -
  have c: "clean_text ''AAAAAAAAAA BBBBBBBBBB CCCCCCCCCC'' = ''AAAAAAAAAA BBBBBBBBBB CCCCCCCCCC''"
    by (simp add: clean_text_def strip_def isspace_def)
  have "chunk_text \<lparr>chunk_size = 20, chunk_overlap = 5\<rparr> ''AAAAAAAAAA BBBBBBBBBB CCCCCCCCCC'' = None"
    by (rule chunk_text_diverges) (simp_all add: c)
  then show ?thesis by (simp add: c)
qed

section \<open>Properties of the document store\<close>





lemma map_of_dict_merge: "map_of (dict_merge a b) = map_of a ++ map_of (rev b)"
proof (induction b arbitrary: a)
  case Nil
  show ?case by (simp add: dict_merge_def)
next
  case (Cons kv b)
  obtain k v where kv: "kv = (k, v)" by (cases kv)
  have "dict_merge a (kv # b) = dict_merge (AList.update k v a) b"
    by (simp add: dict_merge_def kv)
  then have "map_of (dict_merge a (kv # b)) = (map_of a)(k \<mapsto> v) ++ map_of (rev b)"
    by (simp add: Cons.IH update_conv' fun_upd_def)
  also have "\<dots> = map_of a ++ (map_of [kv] ++ map_of (rev b))"
    by (rule ext) (simp add: kv map_add_def split: option.splits)
  also have "\<dots> = map_of a ++ map_of (rev (kv # b))"
    by (simp add: map_of_append)
  finally show ?case .
qed



lemma map_of_dict_merge_other:
  "k \<notin> fst ` set b \<Longrightarrow> map_of (dict_merge a b) k = map_of a k"
proof -
  assume "k \<notin> fst ` set b"
  then have "map_of (rev b) k = None" by (simp add: map_of_eq_None_iff)
  then show ?thesis by (simp add: map_of_dict_merge map_add_def)
qed

text \<open>The dictionary that \<^verbatim>\<open>update_document\<close> hands to \<^verbatim>\<open>$set\<close>.\<close>

lemma update_document_found:
  assumes f: "find_one coll doc_id = Some d"
    and r: "update_document dollar_ok coll doc_id content patch now1 now2 = Inr (ok, coll')"
  shows "\<exists>cur_content cur_metadata extra.
           map_of d ''content'' = Some cur_content \<and>
           map_of d ''metadata'' = Some cur_metadata \<and>
           (extra = [] \<and> (patch = None \<or> patch = Some [])
            \<or> (\<exists>m p. cur_metadata = BDoc m \<and> patch = Some p \<and> p \<noteq> [] \<and>
                  extra = [(''metadata'', BDoc (dict_merge m p))])) \<and>
           dollar_ok \<and>
           coll' = update_first (\<lambda>d. map_of d ''document_id'' = Some (BStr doc_id))
                     (\<lambda>d. dict_merge d
                        ([(''content'', BStr content), (''updated_at'', BTime now2),
                          (''$push'', BDoc [(''version_history'',
                             BDoc [(''content'', cur_content), (''metadata'', cur_metadata),
                                   (''timestamp'', BTime now1)])])] @ extra)) coll"
proof -
  obtain cc where cc: "map_of d ''content'' = Some cc"
    using r by (cases "map_of d ''content''") (simp_all add: update_document_def f getitem_def)
  obtain cm where cm: "map_of d ''metadata'' = Some cm"
    using r by (cases "map_of d ''metadata''") (simp_all add: update_document_def f getitem_def cc)
  let ?ud = "[(''content'', BStr content), (''updated_at'', BTime now2),
              (''$push'', BDoc [(''version_history'',
                 BDoc [(''content'', cc), (''metadata'', cm), (''timestamp'', BTime now1)])])]"
  have set_ok: "dollar_ok \<and> coll' = update_first (\<lambda>d. map_of d ''document_id'' = Some (BStr doc_id))
                     (\<lambda>d. dict_merge d (?ud @ extra)) coll"
    if "update_one_set dollar_ok coll doc_id (?ud @ extra) = Inr (res, coll')" for extra res
    using that by (simp add: update_one_set_def f dollar_prefixed_def split: if_splits)
  consider (none) "patch = None \<or> patch = Some []"
    | (some) p where "patch = Some p" "p \<noteq> []"
    by (cases patch) auto
  then show ?thesis
  proof cases
    case none
    then have "\<exists>res. update_one_set dollar_ok coll doc_id (?ud @ []) = Inr (res, coll')"
      using r
      by (auto simp: update_document_def f getitem_def cc cm Let_def split: sum.splits)
    then obtain res where "update_one_set dollar_ok coll doc_id (?ud @ []) = Inr (res, coll')" ..
    from set_ok[OF this] cc cm none show ?thesis by blast
  next
    case some
    then obtain kv kvs where p: "p = kv # kvs" by (cases p) auto
    obtain m where m: "cm = BDoc m"
      using r by (cases cm) (simp_all add: update_document_def f getitem_def cc cm some p)
    have "\<exists>res. update_one_set dollar_ok coll doc_id
                   (?ud @ [(''metadata'', BDoc (dict_merge m p))]) = Inr (res, coll')"
      using r
      by (auto simp: update_document_def f getitem_def cc cm m some p Let_def split: sum.splits)
    then obtain res where "update_one_set dollar_ok coll doc_id
                   (?ud @ [(''metadata'', BDoc (dict_merge m p))]) = Inr (res, coll')" ..
    from set_ok[OF this] cc cm m some show ?thesis by blast
  qed
qed


lemma map_update_first_invariant:
  "(\<And>x. g (f x) = g x) \<Longrightarrow> map g (update_first p f xs) = map g xs"
  by (induction xs) simp_all

lemma update_document_keeps_version_history:
  assumes r: "update_document dollar_ok coll doc_id content patch now1 now2 = Inr (ok, coll')"
  shows "map (\<lambda>d. map_of d ''version_history'') coll'
           = map (\<lambda>d. map_of d ''version_history'') coll"
proof (cases "find_one coll doc_id")
  case None
  with r have "coll' = coll" by (simp add: update_document_def)
  then show ?thesis by simp
next
  case (Some d)
  from update_document_found[OF Some r] obtain cc cm extra where
    ex: "extra = [] \<and> (patch = None \<or> patch = Some [])
         \<or> (\<exists>m p. cm = BDoc m \<and> patch = Some p \<and> p \<noteq> [] \<and>
               extra = [(''metadata'', BDoc (dict_merge m p))])" and
    c0: "coll' = update_first (\<lambda>d. map_of d ''document_id'' = Some (BStr doc_id))
                  (\<lambda>d. dict_merge d
                     ([(''content'', BStr content), (''updated_at'', BTime now2),
                       (''$push'', BDoc [(''version_history'',
                          BDoc [(''content'', cc), (''metadata'', cm),
                                (''timestamp'', BTime now1)])])] @ extra)) coll"
    by blast
  define set_fields where "set_fields =
     [(''content'', BStr content), (''updated_at'', BTime now2),
      (''$push'', BDoc [(''version_history'',
         BDoc [(''content'', cc), (''metadata'', cm), (''timestamp'', BTime now1)])])] @ extra"
  have c: "coll' = update_first (\<lambda>d. map_of d ''document_id'' = Some (BStr doc_id))
                  (\<lambda>d. dict_merge d set_fields) coll"
    using c0 by (simp add: set_fields_def)
  have "''version_history'' \<notin> fst ` set set_fields"
    using ex by (auto simp: set_fields_def)
  then have "map_of (dict_merge x set_fields) ''version_history'' = map_of x ''version_history''" for x
    by (rule map_of_dict_merge_other)
  then show ?thesis
    unfolding c
    using map_update_first_invariant[of "\<lambda>d. map_of d ''version_history''"
            "\<lambda>d. dict_merge d set_fields" "\<lambda>d. map_of d ''document_id'' = Some (BStr doc_id)" coll]
    by simp
qed

text \<open>
  C2. The claim: each successful update appends one version entry that holds the
  content and metadata from before the update. The code does not append: the \<open>$push\<close>
  of the version entry sits inside the dictionary given to \<open>$set\<close>, so it is no update
  operator but the name of a field to assign. Updating the content \<open>C1\<close> of the example
  document to \<open>C2\<close>, a server that stores such a field name reports success, leaves
  \<open>version_history\<close> empty and adds a field named \<open>$push\<close>; a server that refuses such
  a field name raises a write error.
\<close>

theorem update_document_history_not_appended:
  "update_document True [example_doc] ''d1'' ''C2'' None 1 2
     = Inr (True,
        [[(''document_id'', BStr ''d1''),
          (''content'', BStr ''C2''),
          (''metadata'', BDoc [(''k'', BStr ''old''), (''j'', BInt 1)]),
          (''version_history'', BArr []),
          (''updated_at'', BTime 2),
          (''$push'', BDoc [(''version_history'',
             BDoc [(''content'', BStr ''C1''),
                   (''metadata'', BDoc [(''k'', BStr ''old''), (''j'', BInt 1)]),
                   (''timestamp'', BTime 1)])])]]) \<and>
   update_document False [example_doc] ''d1'' ''C2'' None 1 2 = Inl WriteError"
  by (simp add: update_document_def update_one_set_def find_one_def getitem_def example_doc_def
        dict_merge_def dollar_prefixed_def Let_def)

text \<open>
  C10. An update with an unknown \<open>document_id\<close> returns false and leaves the
  collection as it was: no document is changed and none is added.
\<close>

theorem update_document_unknown_id:
  "find_one coll doc_id = None \<Longrightarrow>
   update_document dollar_ok coll doc_id content patch now1 now2 = Inr (False, coll)"
  by (simp add: update_document_def)

theorem update_document_unknown_id_witness:
  "find_one [example_doc] ''d2'' = None \<and>
   update_document True [example_doc] ''d2'' ''X'' (Some [(''k'', BStr ''v'')]) 1 2
     = Inr (False, [example_doc])"
proof -
  have h: "find_one [example_doc] ''d2'' = None"
    by (simp add: find_one_def example_doc_def)
  from update_document_unknown_id[OF h] h show ?thesis by simp
qed




section \<open>Properties of the chunk table\<close>

lemma find_update_first_split:
  "List.find p xs = Some x \<Longrightarrow>
   \<exists>pre post. xs = pre @ x # post \<and> (\<forall>y\<in>set pre. \<not> p y) \<and> p x \<and>
              update_first p f xs = pre @ f x # post"
proof (induction xs)
  case Nil
  then show ?case by simp
next
  case (Cons a xs)
  show ?case
  proof (cases "p a")
    case True
    with Cons.prems have "a = x" by simp
    with True have "a # xs = [] @ x # xs \<and> (\<forall>y\<in>set []. \<not> p y) \<and> p x \<and>
                    update_first p f (a # xs) = [] @ f x # xs" by simp
    then show ?thesis by blast
  next
    case False
    with Cons.prems have "List.find p xs = Some x" by simp
    from Cons.IH[OF this] obtain pre post where
      "xs = pre @ x # post" "\<forall>y\<in>set pre. \<not> p y" "p x" "update_first p f xs = pre @ f x # post"
      by blast
    with False have "a # xs = (a # pre) @ x # post \<and> (\<forall>y\<in>set (a # pre). \<not> p y) \<and> p x \<and>
                     update_first p f (a # xs) = (a # pre) @ f x # post" by simp
    then show ?thesis by blast
  qed
qed

text \<open>
  C9. \<open>update_embedding\<close> returns false exactly when no stored chunk has the given
  \<open>chunk_id\<close>, and then the table is unchanged. Otherwise the table is the old one with
  the first row of that \<open>chunk_id\<close> replaced by a row with the same \<open>document_id\<close>,
  \<open>chunk_id\<close> and \<open>chunk_text\<close> and the new embedding; every other row is as before.
\<close>

theorem update_embedding_frame:
  "(fst (update_embedding repr cid vec db) = False) = (cid \<notin> chunk_id ` set db) \<and>
   (cid \<notin> chunk_id ` set db \<longrightarrow> snd (update_embedding repr cid vec db) = db) \<and>
   (cid \<in> chunk_id ` set db \<longrightarrow>
      (\<exists>pre r post. db = pre @ r # post \<and> cid \<notin> chunk_id ` set pre \<and> chunk_id r = cid \<and>
         snd (update_embedding repr cid vec db)
           = pre @ \<lparr>document_id = document_id r, chunk_id = chunk_id r,
                    chunk_text_col = chunk_text_col r,
                    embedding = Some (str_list repr vec)\<rparr> # post))"
proof (cases "List.find (\<lambda>r. chunk_id r = cid) db")
  case None
  then have "cid \<notin> chunk_id ` set db" by (auto simp: find_None_iff)
  with None show ?thesis by (simp add: update_embedding_def)
next
  case (Some x)
  from find_update_first_split[OF Some, of "\<lambda>r. r\<lparr>embedding := Some (str_list repr vec)\<rparr>"]
  obtain pre post where s: "db = pre @ x # post" "\<forall>y\<in>set pre. chunk_id y \<noteq> cid" "chunk_id x = cid"
    "update_first (\<lambda>r. chunk_id r = cid) (\<lambda>r. r\<lparr>embedding := Some (str_list repr vec)\<rparr>) db
       = pre @ x\<lparr>embedding := Some (str_list repr vec)\<rparr> # post"
    by blast
  have mem: "cid \<in> chunk_id ` set db" using s(1,3) by force
  have "db = pre @ x # post \<and> cid \<notin> chunk_id ` set pre \<and> chunk_id x = cid \<and>
         snd (update_embedding repr cid vec db)
           = pre @ \<lparr>document_id = document_id x, chunk_id = chunk_id x,
                    chunk_text_col = chunk_text_col x,
                    embedding = Some (str_list repr vec)\<rparr> # post"
    using s Some by (cases x) (auto simp: update_embedding_def)
  then have "\<exists>pre r post. db = pre @ r # post \<and> cid \<notin> chunk_id ` set pre \<and> chunk_id r = cid \<and>
         snd (update_embedding repr cid vec db)
           = pre @ \<lparr>document_id = document_id r, chunk_id = chunk_id r,
                    chunk_text_col = chunk_text_col r,
                    embedding = Some (str_list repr vec)\<rparr> # post"
    by blast
  with mem Some show ?thesis by (simp add: update_embedding_def)
qed

theorem update_embedding_frame_witness:
  "''d1-chunk-1'' \<in> chunk_id `
      set [\<lparr>document_id = ''d1'', chunk_id = ''d1-chunk-0'', chunk_text_col = ''ab'', embedding = None\<rparr>,
           \<lparr>document_id = ''d1'', chunk_id = ''d1-chunk-1'', chunk_text_col = ''cd'', embedding = None\<rparr>] \<and>
   update_embedding str_nat ''d1-chunk-1'' [1, 2]
      [\<lparr>document_id = ''d1'', chunk_id = ''d1-chunk-0'', chunk_text_col = ''ab'', embedding = None\<rparr>,
       \<lparr>document_id = ''d1'', chunk_id = ''d1-chunk-1'', chunk_text_col = ''cd'', embedding = None\<rparr>]
    = (True,
      [\<lparr>document_id = ''d1'', chunk_id = ''d1-chunk-0'', chunk_text_col = ''ab'', embedding = None\<rparr>,
       \<lparr>document_id = ''d1'', chunk_id = ''d1-chunk-1'', chunk_text_col = ''cd'',
          embedding = Some ''[1, 2]''\<rparr>]) \<and>
   ''d9-chunk-0'' \<notin> chunk_id `
      set [\<lparr>document_id = ''d1'', chunk_id = ''d1-chunk-0'', chunk_text_col = ''ab'', embedding = None\<rparr>] \<and>
   update_embedding str_nat ''d9-chunk-0'' [1, 2]
      [\<lparr>document_id = ''d1'', chunk_id = ''d1-chunk-0'', chunk_text_col = ''ab'', embedding = None\<rparr>]
    = (False,
      [\<lparr>document_id = ''d1'', chunk_id = ''d1-chunk-0'', chunk_text_col = ''ab'', embedding = None\<rparr>])"
proof -
  let ?r0 = "\<lparr>document_id = ''d1'', chunk_id = ''d1-chunk-0'', chunk_text_col = ''ab'', embedding = None\<rparr>"
  let ?r1 = "\<lparr>document_id = ''d1'', chunk_id = ''d1-chunk-1'', chunk_text_col = ''cd'', embedding = None\<rparr>"
  have in1: "''d1-chunk-1'' \<in> chunk_id ` set [?r0, ?r1]" by simp
  have out: "''d9-chunk-0'' \<notin> chunk_id ` set [?r0]" by simp
  have s: "str_list str_nat [1, 2] = ''[1, 2]''"
    by (simp add: str_list_def str_nat.simps)
  from update_embedding_frame[of str_nat "''d1-chunk-1''" "[1, 2]" "[?r0, ?r1]"] in1
  obtain pre r post where
    a: "[?r0, ?r1] = pre @ r # post" "''d1-chunk-1'' \<notin> chunk_id ` set pre" "chunk_id r = ''d1-chunk-1''"
      "snd (update_embedding str_nat ''d1-chunk-1'' [1, 2] [?r0, ?r1])
         = pre @ \<lparr>document_id = document_id r, chunk_id = chunk_id r,
                  chunk_text_col = chunk_text_col r,
                  embedding = Some (str_list str_nat [1, 2])\<rparr> # post"
    and t: "fst (update_embedding str_nat ''d1-chunk-1'' [1, 2] [?r0, ?r1])"
    by auto
  from a(1,2,3) have "pre = [?r0] \<and> r = ?r1 \<and> post = []"
    by (cases pre; cases "tl pre") auto
  with a(4) t s have ok: "update_embedding str_nat ''d1-chunk-1'' [1, 2] [?r0, ?r1]
      = (True, [?r0, ?r1\<lparr>embedding := Some ''[1, 2]''\<rparr>])"
    by (cases "update_embedding str_nat ''d1-chunk-1'' [1, 2] [?r0, ?r1]") simp
  from update_embedding_frame[of str_nat "''d9-chunk-0''" "[1, 2]" "[?r0]"] out
  have "update_embedding str_nat ''d9-chunk-0'' [1, 2] [?r0] = (False, [?r0])"
    by (cases "update_embedding str_nat ''d9-chunk-0'' [1, 2] [?r0]") simp
  with ok in1 out show ?thesis by simp
qed


subsection \<open>Where chunking returns\<close>




subsection \<open>Vectorizing twice\<close>






end
